theory Spec2Isabelle
  imports Main "HOL-Library.Word"
begin

unbundle bit_operations_syntax

section \<open>The UART bridge of \<open>uart_bridge.ino\<close>\<close>

text \<open>
  The sketch emulates an SC18IM704: it reads line-delimited command frames from the
  serial port \<open>bridge\<close> and relays them to I2C and GPIO. The model below follows the
  sketch function by function. What the sketch does to the outside world (the bridge
  port, the Wire bus, the GPIO pins) is recorded as traces in the state; what the outside
  world answers (the bytes arriving on the port, the result of \<open>Wire.endTransmission\<close>,
  the bytes a device sends, the pin levels) is an input of the model. The diagnostic
  output on the second port \<open>LOG\<close> is left out: it only reads the state.
\<close>

subsection \<open>Constants\<close>

type_synonym byte = "8 word"

text \<open>
  Memory seen through a pointer: the cell at each index from the base of an array. The
  cells below the array's size are the array; the cells from the size on are whatever
  the program keeps behind it.
\<close>

type_synonym store = "nat \<Rightarrow> byte"

abbreviation (input) BUFFER_SIZE :: nat where "BUFFER_SIZE \<equiv> 64"
abbreviation (input) I2C_READ_BIT :: byte where "I2C_READ_BIT \<equiv> 0x01"

abbreviation (input) CMD_START :: byte where "CMD_START \<equiv> 0x53"
abbreviation (input) CMD_STOP :: byte where "CMD_STOP \<equiv> 0x50"
abbreviation (input) CMD_REG_READ :: byte where "CMD_REG_READ \<equiv> 0x52"
abbreviation (input) CMD_REG_WRITE :: byte where "CMD_REG_WRITE \<equiv> 0x57"
abbreviation (input) CMD_GPIO_READ :: byte where "CMD_GPIO_READ \<equiv> 0x49"
abbreviation (input) CMD_GPIO_WRITE :: byte where "CMD_GPIO_WRITE \<equiv> 0x4F"
abbreviation (input) CMD_POWER_DOWN :: byte where "CMD_POWER_DOWN \<equiv> 0x5A"
abbreviation (input) CMD_READ_ID :: byte where "CMD_READ_ID \<equiv> 0x56"

abbreviation (input) REG_BAUD_RATE_0 :: byte where "REG_BAUD_RATE_0 \<equiv> 0"
abbreviation (input) REG_BAUD_RATE_1 :: byte where "REG_BAUD_RATE_1 \<equiv> 1"
abbreviation (input) REG_PORT_CONF1 :: byte where "REG_PORT_CONF1 \<equiv> 2"
abbreviation (input) REG_PORT_CONF2 :: byte where "REG_PORT_CONF2 \<equiv> 3"
abbreviation (input) REG_IO_STATE :: byte where "REG_IO_STATE \<equiv> 4"
abbreviation (input) REG_I2C_CLK_L :: byte where "REG_I2C_CLK_L \<equiv> 7"
abbreviation (input) REG_I2C_CLK_H :: byte where "REG_I2C_CLK_H \<equiv> 8"
abbreviation (input) REG_I2C_STATE :: byte where "REG_I2C_STATE \<equiv> 10"

abbreviation (input) I2C_OK :: byte where "I2C_OK \<equiv> 0xF0"
abbreviation (input) I2C_NACK_ON_ADDR :: byte where "I2C_NACK_ON_ADDR \<equiv> 0xF1"
abbreviation (input) I2C_NACK_ON_DATA :: byte where "I2C_NACK_ON_DATA \<equiv> 0xF2"
abbreviation (input) I2C_TIME_OUT :: byte where "I2C_TIME_OUT \<equiv> 0xF8"

abbreviation (input) CR :: byte where "CR \<equiv> 0x0D"
abbreviation (input) LF :: byte where "LF \<equiv> 0x0A"

definition gpio_pins :: "nat list" where
  "gpio_pins = [2, 4, 5, 12, 13, 14, 18, 19]"

text \<open>
  \<open>device_id\<close> points at the literal \<open>"U-Bridge v1.0.0\0"\<close>: fifteen characters, the
  NUL the literal spells out, and the NUL the compiler appends.
\<close>

definition device_id :: "byte list" where
  "device_id = [0x55, 0x2D, 0x42, 0x72, 0x69, 0x64, 0x67, 0x65, 0x20,
                0x76, 0x31, 0x2E, 0x30, 0x2E, 0x30, 0x00, 0x00]"

subsection \<open>State, environment and traces\<close>

datatype serial_op = Write byte | Flush | Begin nat

datatype wire_op =
    Wire_begin
  | Set_clock nat
  | Transmission byte "byte list" bool
  | Request_from byte nat

datatype gpio_op = Pin_mode_output nat | Digital_write nat byte

text \<open>
  The globals of the sketch (\<open>rx_buf\<close>, \<open>i2c_state\<close>, \<open>ioStates\<close>, \<open>_cnt\<close>, here
  \<open>cnt\<close>), the bytes still to arrive on the bridge port, the rate the port was last
  opened at, and the three traces. \<open>rx_buf\<close> is the memory from the base of the array:
  cells 0 to 63 are the array itself.
\<close>

record bridge_state =
  rx_buf :: store
  i2c_state :: byte
  ioStates :: byte
  cnt :: int
  uart_in :: "byte list"
  baud :: nat
  bridge_out :: "serial_op list"
  wire_ops :: "wire_op list"
  gpio_ops :: "gpio_op list"

text \<open>
  What the hardware answers during one pass of \<open>loop\<close>: the value
  \<open>Wire.endTransmission\<close> returns, the bytes the addressed device sends when it is read,
  and the level \<open>digitalRead\<close> finds on each pin.
\<close>

record env =
  end_result :: byte
  bus_reply :: "byte list"
  pin_level :: "nat \<Rightarrow> bool"

definition written :: "serial_op list \<Rightarrow> byte list" where
  "written ops = concat (map (\<lambda>x. case x of Write b \<Rightarrow> [b] | _ \<Rightarrow> []) ops)"

subsection \<open>The frame reader\<close>

definition memset_zero :: "store \<Rightarrow> nat \<Rightarrow> store" where
  "memset_zero m n = (\<lambda>i. if i < n then 0 else m i)"

text \<open>
  What one call of \<open>wait_for_cmd\<close> leaves: the value returned, the memory at \<open>rx_buf\<close>,
  the input not yet consumed, and the indices of \<open>rx_buf\<close> it stored to, in order.
\<close>

record rx_result =
  ret :: int
  buf :: store
  rest :: "byte list"
  stored :: "nat list"

text \<open>
  The \<open>do ... while (true)\<close> loop. It spins while no byte is available, so on an input
  that ends before the loop returns it never returns: \<open>None\<close>.
\<close>

fun read_loop :: "byte list \<Rightarrow> nat \<Rightarrow> store \<Rightarrow> nat list \<Rightarrow> rx_result option" where
  "read_loop [] n m ws = None"
| "read_loop (c # cs) n m ws =
     (if c = CR then read_loop cs n m ws
      else if c = LF then
        Some \<lparr>ret = int n, buf = m(n := 0), rest = cs, stored = ws @ [n]\<rparr>
      else
        (let m' = m(n := c); n' = n + 1 in
         if n' > BUFFER_SIZE then
           Some \<lparr>ret = - 1, buf = m', rest = cs, stored = ws @ [n]\<rparr>
         else read_loop cs n' m' (ws @ [n])))"

definition wait_for_cmd :: "bridge_state \<Rightarrow> rx_result option" where
  "wait_for_cmd s = read_loop (uart_in s) 0 (memset_zero (rx_buf s) BUFFER_SIZE) []"

text \<open>The frame a call delivers: the first \<open>ret\<close> bytes of the buffer.\<close>

definition frame_of :: "rx_result \<Rightarrow> byte list" where
  "frame_of r = map (buf r) [0 ..< nat (ret r)]"

subsection \<open>I2C\<close>

text \<open>
  \<open>i2c_write\<close>: \<open>&&\<close> evaluates \<open>data[_cnt - 1]\<close> only when the lengths agree. The bytes
  handed to \<open>Wire.write\<close> are the \<open>len\<close> cells from \<open>data[3]\<close> on, whether one or many.
\<close>

definition i2c_write :: "env \<Rightarrow> store \<Rightarrow> bridge_state \<Rightarrow> bridge_state" where
  "i2c_write e data s =
     (let len = data 2;
          send_stop = (if cnt s = 4 + uint len then data (nat (cnt s - 1)) = CMD_STOP
                       else False);
          payload = map data [3 ..< 3 + unat len]
      in s\<lparr>wire_ops := wire_ops s @ [Transmission (drop_bit 1 (data 1)) payload send_stop],
           i2c_state := end_result e\<rparr>)"

text \<open>
  The drain loop of \<open>i2c_read\<close>, \<open>rbuf[i++] = Wire.read()\<close> for every byte available;
  it returns the final \<open>i\<close>, the memory at \<open>rbuf\<close> and the indices stored to, in order.
\<close>

fun drain :: "byte list \<Rightarrow> nat \<Rightarrow> store \<Rightarrow> nat list \<Rightarrow> nat \<times> store \<times> nat list" where
  "drain [] i rbuf ws = (i, rbuf, ws)"
| "drain (b # bs) i rbuf ws = drain bs (i + 1) (rbuf(i := b)) (ws @ [i])"

abbreviation (input) RBUF_SIZE :: nat where "RBUF_SIZE \<equiv> 10"

text \<open>
  \<open>i2c_read\<close>. \<open>Wire.requestFrom\<close> clocks in at most the number of bytes asked for;
  the loop \<open>while (Wire.available()==0) {}\<close> never ends when none came: \<open>None\<close>.
  The result carries the indices of \<open>rbuf\<close> stored to. \<open>rbuf\<close> starts zeroed; the cells
  behind it are read only after the drain loop has stored to them.
\<close>

definition i2c_read :: "env \<Rightarrow> byte \<Rightarrow> byte \<Rightarrow> bridge_state \<Rightarrow> (nat list \<times> bridge_state) option" where
  "i2c_read e addr bytes s =
     (let s1 = s\<lparr>wire_ops := wire_ops s @ [Request_from (drop_bit 1 addr) (unat bytes)]\<rparr>;
          avail = take (unat bytes) (bus_reply e)
      in if avail = [] then None
         else
           (case drain avail 0 (\<lambda>_. 0) [] of
              (l, rbuf, ws) \<Rightarrow>
                Some (ws, s1\<lparr>bridge_out := bridge_out s1 @ map (\<lambda>i. Write (rbuf i)) [0 ..< l]
                                                        @ [Write 0]\<rparr>)))"

subsection \<open>Registers\<close>

definition reg_read :: "byte \<Rightarrow> bridge_state \<Rightarrow> bridge_state" where
  "reg_read reg s =
     (let s1 = (if reg = REG_IO_STATE
                then s\<lparr>bridge_out := bridge_out s @ [Write (ioStates s)]\<rparr> else s)
      in if reg = REG_I2C_STATE then
           (let status = (if i2c_state s1 = 0 then I2C_OK
                          else if i2c_state s1 = 2 then I2C_NACK_ON_ADDR
                          else if i2c_state s1 = 3 then I2C_NACK_ON_DATA
                          else if i2c_state s1 = 5 then I2C_TIME_OUT
                          else i2c_state s1)
            in if status = 1 \<or> status = 4 then s1
               else s1\<lparr>bridge_out := bridge_out s1 @ [Write status]\<rparr>)
         else s1)"

definition pair16 :: "byte \<Rightarrow> byte \<Rightarrow> 16 word" where
  "pair16 hi lo = push_bit 8 (ucast hi) OR ucast lo"

definition baud_rate :: "nat list" where
  "baud_rate = [9600, 14400, 19200, 28800, 38400, 57600, 76800, 115200, 230400, 460800]"

definition br_config :: "16 word list" where
  "br_config = [0x02f0, 0x01f0, 0x0170, 0x00f0, 0x00b0, 0x0070, 0x0050, 0x0030, 0x0010, 0x0000]"

text \<open>The \<open>for\<close> loop over the ten table entries: every matching entry reopens the port.\<close>

fun baud_loop :: "16 word \<Rightarrow> (16 word \<times> nat) list \<Rightarrow> bridge_state \<Rightarrow> bridge_state" where
  "baud_loop val [] s = s"
| "baud_loop val ((c, r) # tbl) s =
     baud_loop val tbl
       (if val = c then s\<lparr>bridge_out := bridge_out s @ [Flush, Begin r], baud := r\<rparr> else s)"

definition reg_write :: "store \<Rightarrow> bridge_state \<Rightarrow> bridge_state" where
  "reg_write buffer s =
     (let reg = pair16 (buffer 3) (buffer 1);
          val = pair16 (buffer 4) (buffer 2)
      in if reg = pair16 REG_PORT_CONF2 REG_PORT_CONF1 then s
         else if reg = pair16 REG_BAUD_RATE_1 REG_BAUD_RATE_0 then
           baud_loop val (zip br_config baud_rate) s
         else if reg = pair16 REG_I2C_CLK_H REG_I2C_CLK_L then
           (let s1 = (if val = 0x0005
                      then s\<lparr>wire_ops := wire_ops s @ [Set_clock 400000]\<rparr> else s)
            in if val = 0x0013
               then s1\<lparr>wire_ops := wire_ops s1 @ [Set_clock 100000]\<rparr> else s1)
         else s)"

subsection \<open>GPIO, power-down, identity\<close>

text \<open>
  \<open>gpio_read\<close>: \<open>digitalRead\<close> gives 1 for a high pin and 0 for a low one; the sum
  \<open>ioStates |= (p << i)\<close> is cut to eight bits when it is stored.
\<close>

definition gpio_read :: "env \<Rightarrow> bridge_state \<Rightarrow> bridge_state" where
  "gpio_read e s =
     (let io = fold (\<lambda>i st. st OR push_bit i (of_bool (pin_level e (gpio_pins ! i))))
                    [0 ..< 8] (0 :: byte)
      in s\<lparr>ioStates := io, bridge_out := bridge_out s @ [Write io]\<rparr>)"

definition gpio_write :: "byte \<Rightarrow> bridge_state \<Rightarrow> bridge_state" where
  "gpio_write state s =
     s\<lparr>gpio_ops := gpio_ops s
          @ map (\<lambda>i. Digital_write (gpio_pins ! i) (drop_bit i state AND 0x01)) [0 ..< 8]\<rparr>"

definition power_down :: "bridge_state \<Rightarrow> bridge_state" where
  "power_down s = s"

text \<open>
  \<open>bridge.write(const char *)\<close> is \<open>Print::write\<close> of the Arduino core: it sends
  \<open>strlen(str)\<close> bytes, the characters before the first NUL.
\<close>

definition c_str :: "byte list \<Rightarrow> byte list" where
  "c_str xs = takeWhile (\<lambda>b. b \<noteq> 0) xs"

definition read_id :: "bridge_state \<Rightarrow> bridge_state" where
  "read_id s = s\<lparr>bridge_out := bridge_out s @ map Write (c_str device_id)\<rparr>"

subsection \<open>Start-up and the dispatcher\<close>

text \<open>
  The state after the global initialisers and the sketch's \<open>setup()\<close>, for the memory \<open>m\<close> found behind
  \<open>rx_buf\<close> and the bytes \<open>inp\<close> that will arrive.
\<close>

definition setup_sketch :: "store \<Rightarrow> byte list \<Rightarrow> bridge_state" where
  "setup_sketch m inp =
     \<lparr>rx_buf = memset_zero m BUFFER_SIZE, i2c_state = 0, ioStates = 0, cnt = 0,
      uart_in = inp, baud = 115200,
      bridge_out = [Begin 115200, Write 0x4F, Write 0x4B],
      wire_ops = [Wire_begin, Set_clock 400000],
      gpio_ops = map (\<lambda>i. Pin_mode_output (gpio_pins ! i)) [0 ..< 8]\<rparr>"

text \<open>
  The \<open>switch\<close> of \<open>loop\<close> on \<open>rx_buf[0]\<close>, with \<open>_cnt\<close> already assigned. The value of
  \<open>_cnt\<close> is not inspected before the switch.
\<close>

definition dispatch :: "env \<Rightarrow> bridge_state \<Rightarrow> bridge_state option" where
  "dispatch e s =
     (let b = rx_buf s in
      if b 0 = CMD_START then
        (if b 1 AND I2C_READ_BIT \<noteq> 0
         then map_option snd (i2c_read e (b 1) (b 2) s)
         else Some (i2c_write e b s))
      else if b 0 = CMD_REG_READ then Some (reg_read (b 1) s)
      else if b 0 = CMD_REG_WRITE then Some (reg_write b s)
      else if b 0 = CMD_GPIO_READ then Some (gpio_read e s)
      else if b 0 = CMD_GPIO_WRITE then Some (gpio_write (b 1) s)
      else if b 0 = CMD_POWER_DOWN then Some (power_down s)
      else if b 0 = CMD_READ_ID then Some (read_id s)
      else Some s)"

definition loop :: "env \<Rightarrow> bridge_state \<Rightarrow> bridge_state option" where
  "loop e s =
     (case wait_for_cmd s of
        None \<Rightarrow> None
      | Some r \<Rightarrow> dispatch e (s\<lparr>rx_buf := buf r, uart_in := rest r, cnt := ret r\<rparr>))"

subsection \<open>Notions used in the statements\<close>

text \<open>The memory \<open>m\<close> with the bytes \<open>p\<close> laid from index \<open>n\<close> on.\<close>

definition fill :: "store \<Rightarrow> nat \<Rightarrow> byte list \<Rightarrow> store" where
  "fill m n p = (\<lambda>i. if n \<le> i \<and> i < n + length p then p ! (i - n) else m i)"

text \<open>The bytes of a stretch of input that are not carriage returns.\<close>

abbreviation (input) payload_bytes :: "byte list \<Rightarrow> byte list" where
  "payload_bytes cs \<equiv> filter (\<lambda>c. c \<noteq> CR) cs"

text \<open>The input a call of \<open>wait_for_cmd\<close> took: what was pending less what it left.\<close>

definition consumed :: "bridge_state \<Rightarrow> rx_result \<Rightarrow> byte list" where
  "consumed s r = take (length (uart_in s) - length (rest r)) (uart_in s)"

text \<open>
  The Arduino core calls \<open>setup\<close> once and \<open>loop\<close> for ever; \<open>run\<close> is a stretch of
  passes of \<open>loop\<close>, one environment each.
\<close>

fun run :: "env list \<Rightarrow> bridge_state \<Rightarrow> bridge_state option" where
  "run [] s = Some s"
| "run (e # es) s = Option.bind (loop e s) (run es)"

text \<open>Inputs for the examples: memory of zeroes, idle hardware, the state after start-up.\<close>

definition zero_mem :: store where
  "zero_mem = (\<lambda>_. 0)"

definition idle_env :: env where
  "idle_env = \<lparr>end_result = 0, bus_reply = [], pin_level = (\<lambda>_. False)\<rparr>"

definition idle_state :: bridge_state where
  "idle_state = setup_sketch zero_mem []"

text \<open>Inputs, buffers and environments of the examples below.\<close>

definition demo_input :: "byte list" where
  "demo_input = [CMD_READ_ID, CR, CMD_STOP, LF, CMD_GPIO_READ]"

definition demo_state :: bridge_state where
  "demo_state = setup_sketch zero_mem demo_input"

definition stop_input :: "byte list" where
  "stop_input = [CMD_START, 0x10, 0x02, 0xAA, 0xBB, CMD_STOP, LF]"

definition nostop_input :: "byte list" where
  "nostop_input = [CMD_START, 0x10, 0x02, 0xAA, 0xBB, LF]"

definition baud_115200_buffer :: store where
  "baud_115200_buffer = fill zero_mem 0 [CMD_REG_WRITE, 0x00, 0x30, 0x01, 0x00, CMD_STOP]"

definition baud_unlisted_buffer :: store where
  "baud_unlisted_buffer = fill zero_mem 0 [CMD_REG_WRITE, 0x00, 0x34, 0x01, 0x12, CMD_STOP]"

definition pin5_env :: env where
  "pin5_env = \<lparr>end_result = 0, bus_reply = [], pin_level = (\<lambda>p. p = 5)\<rparr>"

definition reply11_env :: env where
  "reply11_env = \<lparr>end_result = 0,
                   bus_reply = [0x01, 0x02, 0x03, 0x04, 0x05, 0x06, 0x07, 0x08, 0x09, 0x0A, 0x0B],
                   pin_level = (\<lambda>_. False)\<rparr>"

definition overflow_input :: "byte list" where
  "overflow_input = replicate 64 CMD_READ_ID @ [CMD_READ_ID]"

definition mem_55 :: store where
  "mem_55 = (\<lambda>_. 0x55)"

definition full_line :: "byte list" where
  "full_line = replicate 64 0x41 @ [LF]"

definition long_line :: "byte list" where
  "long_line = replicate 64 0x41 @ [0x41]"

definition frame_len62 :: "byte list" where
  "frame_len62 = [CMD_START, 0x10, 0x3E, LF]"

definition nack_env :: env where
  "nack_env = \<lparr>end_result = 2, bus_reply = [], pin_level = (\<lambda>_. False)\<rparr>"

definition status_query_input :: "byte list" where
  "status_query_input = [CMD_START, 0x10, 0x01, 0xAA, CMD_STOP, LF,
                         CMD_REG_READ, REG_I2C_STATE, CMD_STOP, LF]"

section \<open>The frame reader\<close>

lemma fill_Cons: "fill (m(n := c)) (Suc n) p = fill m n (c # p)"
  by (rule ext) (auto simp: fill_def nth_Cons' Suc_diff_le)

lemma fill_Nil: "fill m n [] = m"
  by (rule ext) (auto simp: fill_def)

lemma fill_single: "fill m n [c] = m(n := c)"
  by (rule ext) (auto simp: fill_def)

lemma upt_stored: "n < j \<Longrightarrow> n # [Suc n ..< j] = [n ..< j]"
  by (simp add: upt_conv_Cons del: upt_Suc)

text \<open>
  A line that fits: the loop skips the carriage returns, stores the other bytes from
  index \<open>n\<close> on, stores the terminator behind them and returns the count.
\<close>

lemma read_loop_frame:
  "LF \<notin> set pre \<Longrightarrow> n + length (payload_bytes pre) \<le> BUFFER_SIZE \<Longrightarrow>
   read_loop (pre @ LF # tl0) n m ws =
     Some \<lparr>ret = int (n + length (payload_bytes pre)),
           buf = (fill m n (payload_bytes pre))(n + length (payload_bytes pre) := 0),
           rest = tl0,
           stored = ws @ [n ..< Suc (n + length (payload_bytes pre))]\<rparr>"
proof (induction pre arbitrary: n m ws)
  case Nil
  then show ?case by (auto simp: fill_Nil fun_eq_iff)
next
  case (Cons c pre)
  show ?case
  proof (cases "c = CR")
    case True
    with Cons show ?thesis by simp
  next
    case False
    from Cons.prems False have le: "Suc n + length (payload_bytes pre) \<le> BUFFER_SIZE"
      and nl: "LF \<notin> set pre" and c: "c \<noteq> LF" by auto
    have "read_loop ((c # pre) @ LF # tl0) n m ws
            = read_loop (pre @ LF # tl0) (Suc n) (m(n := c)) (ws @ [n])"
      using False c le by simp
    also have "\<dots> = Some \<lparr>ret = int (Suc n + length (payload_bytes pre)),
           buf = (fill (m(n := c)) (Suc n) (payload_bytes pre))
                   (Suc n + length (payload_bytes pre) := 0),
           rest = tl0,
           stored = (ws @ [n]) @ [Suc n ..< Suc (Suc n + length (payload_bytes pre))]\<rparr>"
      by (rule Cons.IH [OF nl le])
    also have "\<dots> = Some \<lparr>ret = int (n + length (payload_bytes (c # pre))),
           buf = (fill m n (payload_bytes (c # pre)))
                   (n + length (payload_bytes (c # pre)) := 0),
           rest = tl0,
           stored = ws @ [n ..< Suc (n + length (payload_bytes (c # pre)))]\<rparr>"
      using False by (simp add: fill_Cons upt_stored del: upt_Suc)
    finally show ?thesis .
  qed
qed

text \<open>
  A line that does not fit: the byte that makes the count 65 is stored at index 64 and
  the loop returns \<open>-1\<close>.
\<close>

lemma read_loop_overflow:
  "LF \<notin> set pre \<Longrightarrow> c \<noteq> CR \<Longrightarrow> c \<noteq> LF \<Longrightarrow>
   n + length (payload_bytes pre) = BUFFER_SIZE \<Longrightarrow>
   read_loop (pre @ c # tl0) n m ws =
     Some \<lparr>ret = - 1, buf = fill m n (payload_bytes pre @ [c]), rest = tl0,
           stored = ws @ [n ..< Suc BUFFER_SIZE]\<rparr>"
proof (induction pre arbitrary: n m ws)
  case Nil
  then show ?case by (auto simp: fill_single fun_eq_iff)
next
  case (Cons d pre)
  show ?case
  proof (cases "d = CR")
    case True
    with Cons show ?thesis by simp
  next
    case False
    from Cons.prems False have le: "Suc n + length (payload_bytes pre) = BUFFER_SIZE"
      and nl: "LF \<notin> set pre" and d: "d \<noteq> LF" by auto
    have "read_loop ((d # pre) @ c # tl0) n m ws
            = read_loop (pre @ c # tl0) (Suc n) (m(n := d)) (ws @ [n])"
      using False d le by simp
    also have "\<dots> = Some \<lparr>ret = - 1,
           buf = fill (m(n := d)) (Suc n) (payload_bytes pre @ [c]),
           rest = tl0, stored = (ws @ [n]) @ [Suc n ..< Suc BUFFER_SIZE]\<rparr>"
      by (rule Cons.IH [OF nl Cons.prems(2) Cons.prems(3) le])
    also have "\<dots> = Some \<lparr>ret = - 1, buf = fill m n (payload_bytes (d # pre) @ [c]),
           rest = tl0, stored = ws @ [n ..< Suc BUFFER_SIZE]\<rparr>"
      using False le by (simp add: fill_Cons upt_stored del: upt_Suc)
    finally show ?thesis .
  qed
qed

text \<open>Input that ends before a line feed or the 65th byte: the loop waits for ever.\<close>

lemma read_loop_blocks:
  "LF \<notin> set cs \<Longrightarrow> n + length (payload_bytes cs) \<le> BUFFER_SIZE \<Longrightarrow>
   read_loop cs n m ws = None"
  by (induction cs arbitrary: n m ws) auto

lemma long_payload_split:
  "k < length (payload_bytes xs) \<Longrightarrow>
   \<exists>pre c tl0. xs = pre @ c # tl0 \<and> c \<noteq> CR \<and> length (payload_bytes pre) = k"
proof (induction xs arbitrary: k)
  case Nil
  then show ?case by simp
next
  case (Cons x xs)
  show ?case
  proof (cases "x = CR")
    case True
    with Cons.prems have "k < length (payload_bytes xs)" by simp
    from Cons.IH [OF this] obtain pre c tl0
      where "xs = pre @ c # tl0" "c \<noteq> CR" "length (payload_bytes pre) = k" by blast
    with True
    have "x # xs = (x # pre) @ c # tl0 \<and> c \<noteq> CR \<and> length (payload_bytes (x # pre)) = k"
      by simp
    then show ?thesis by blast
  next
    case False
    show ?thesis
    proof (cases k)
      case 0
      with False
      have "x # xs = [] @ x # xs \<and> x \<noteq> CR \<and> length (payload_bytes []) = k" by simp
      then show ?thesis by blast
    next
      case (Suc j)
      with Cons.prems False have "j < length (payload_bytes xs)" by simp
      from Cons.IH [OF this] obtain pre c tl0
        where "xs = pre @ c # tl0" "c \<noteq> CR" "length (payload_bytes pre) = j" by blast
      with False Suc
      have "x # xs = (x # pre) @ c # tl0 \<and> c \<noteq> CR \<and> length (payload_bytes (x # pre)) = k"
        by simp
      then show ?thesis by blast
    qed
  qed
qed

text \<open>Every pending input is of one of three kinds: a line that fits, a line that does
  not, or too little to decide.\<close>

lemma input_cases:
  fixes cs :: "byte list"
  obtains
    (frame) pre tl0 where "cs = pre @ LF # tl0" "LF \<notin> set pre"
      "length (payload_bytes pre) \<le> BUFFER_SIZE"
  | (overflow) pre c tl0 where "cs = pre @ c # tl0" "LF \<notin> set pre" "c \<noteq> CR" "c \<noteq> LF"
      "length (payload_bytes pre) = BUFFER_SIZE"
  | (blocks) "LF \<notin> set cs" "length (payload_bytes cs) \<le> BUFFER_SIZE"
proof -
  define line where "line = takeWhile (\<lambda>c. c \<noteq> LF) cs"
  have cs: "cs = line @ dropWhile (\<lambda>c. c \<noteq> LF) cs" and nl: "LF \<notin> set line"
    by (auto simp: line_def dest: set_takeWhileD)
  show ?thesis
  proof (cases "BUFFER_SIZE < length (payload_bytes line)")
    case True
    from long_payload_split [OF True] obtain pre c t
      where l: "line = pre @ c # t" and c: "c \<noteq> CR" and k: "length (payload_bytes pre) = BUFFER_SIZE"
      by blast
    from l nl have p: "LF \<notin> set pre" and c': "c \<noteq> LF" by auto
    from cs l have "cs = pre @ c # (t @ dropWhile (\<lambda>c. c \<noteq> LF) cs)" by simp
    then show ?thesis using p c c' k by (rule overflow)
  next
    case False
    show ?thesis
    proof (cases "LF \<in> set cs")
      case True
      then have "dropWhile (\<lambda>c. c \<noteq> LF) cs \<noteq> []" by simp
      then obtain t where "dropWhile (\<lambda>c. c \<noteq> LF) cs = LF # t"
        using hd_dropWhile [of "\<lambda>c. c \<noteq> LF" cs] by (cases "dropWhile (\<lambda>c. c \<noteq> LF) cs") auto
      with cs have "cs = line @ LF # t" by simp
      then show ?thesis using nl False by (intro frame) auto
    next
      case F: False
      then have "line = cs" by (auto simp: line_def)
      with False F show ?thesis by (intro blocks) auto
    qed
  qed
qed

section \<open>What \<open>wait_for_cmd\<close> returns\<close>

lemma frame_cells: "map ((fill m 0 p)(length p := z)) [0 ..< length p] = p"
  by (rule nth_equalityI) (auto simp: fill_def)

lemma wait_for_cmd_frame:
  assumes "uart_in s = pre @ LF # tl0" "LF \<notin> set pre"
    "length (payload_bytes pre) \<le> BUFFER_SIZE"
  shows "wait_for_cmd s =
     Some \<lparr>ret = int (length (payload_bytes pre)),
           buf = (fill (memset_zero (rx_buf s) BUFFER_SIZE) 0 (payload_bytes pre))
                   (length (payload_bytes pre) := 0),
           rest = tl0,
           stored = [0 ..< Suc (length (payload_bytes pre))]\<rparr>"
  using read_loop_frame [of pre 0 tl0 "memset_zero (rx_buf s) BUFFER_SIZE" "[]"] assms
  by (simp add: wait_for_cmd_def del: upt_Suc)

lemma wait_for_cmd_overflow:
  assumes "uart_in s = pre @ c # tl0" "LF \<notin> set pre" "c \<noteq> CR" "c \<noteq> LF"
    "length (payload_bytes pre) = BUFFER_SIZE"
  shows "wait_for_cmd s =
     Some \<lparr>ret = - 1,
           buf = fill (memset_zero (rx_buf s) BUFFER_SIZE) 0 (payload_bytes pre @ [c]),
           rest = tl0, stored = [0 ..< Suc BUFFER_SIZE]\<rparr>"
  using read_loop_overflow [of pre c 0 tl0 "memset_zero (rx_buf s) BUFFER_SIZE" "[]"] assms
  by (simp add: wait_for_cmd_def del: upt_Suc)

lemma wait_for_cmd_blocks:
  assumes "LF \<notin> set (uart_in s)" "length (payload_bytes (uart_in s)) \<le> BUFFER_SIZE"
  shows "wait_for_cmd s = None"
  using read_loop_blocks [of "uart_in s" 0] assms by (simp add: wait_for_cmd_def)

text \<open>
  Claim C8. Whenever a line feed is pending, \<open>wait_for_cmd\<close> returns. Whenever it
  returns, it has taken a prefix of the pending input, and it delivers a frame (a return
  value that is not negative) exactly when that prefix holds a line feed. The line feed
  is then the last byte taken and the only one; the frame is the bytes before it less
  the carriage returns, so no carriage return is in the frame and none is counted in the
  length returned.
\<close>

theorem wait_for_cmd_delivers:
  "(LF \<in> set (uart_in s) \<longrightarrow> wait_for_cmd s \<noteq> None) \<and>
   (\<forall>r. wait_for_cmd s = Some r \<longrightarrow>
      uart_in s = consumed s r @ rest r \<and>
      (0 \<le> ret r \<longleftrightarrow> LF \<in> set (consumed s r)) \<and>
      (0 \<le> ret r \<longrightarrow>
         last (consumed s r) = LF \<and> LF \<notin> set (butlast (consumed s r)) \<and>
         frame_of r = payload_bytes (butlast (consumed s r)) \<and>
         CR \<notin> set (frame_of r) \<and> ret r = int (length (frame_of r))))"
proof (cases "uart_in s" rule: input_cases)
  case (frame pre tl0)
  note w = wait_for_cmd_frame [OF frame]
  have c: "consumed s (the (wait_for_cmd s)) = pre @ [LF]"
    by (simp add: w consumed_def frame(1))
  show ?thesis
    apply (simp add: w del: upt_Suc)
    using c frame apply (simp add: w frame_of_def frame_cells del: upt_Suc)
    done
next
  case (overflow pre c tl0)
  note w = wait_for_cmd_overflow [OF overflow]
  have c: "consumed s (the (wait_for_cmd s)) = pre @ [c]"
    by (simp add: w consumed_def overflow(1))
  show ?thesis
    using c overflow by (simp add: w del: upt_Suc)
next
  case blocks
  then show ?thesis by (simp add: wait_for_cmd_blocks)
qed


theorem wait_for_cmd_delivers_witness:
  "LF \<in> set (uart_in demo_state) \<and>
   (\<exists>r. wait_for_cmd demo_state = Some r \<and>
        consumed demo_state r = [CMD_READ_ID, CR, CMD_STOP, LF] \<and>
        LF \<in> set (consumed demo_state r) \<and> 0 \<le> ret r \<and>
        frame_of r = [CMD_READ_ID, CMD_STOP] \<and> ret r = 2)"
proof -
  have i: "uart_in demo_state = demo_input"
    by (simp add: demo_state_def setup_sketch_def)
  have lf: "LF \<in> set (uart_in demo_state)"
    by (simp add: i demo_input_def)
  note t = wait_for_cmd_delivers [of demo_state]
  from t lf obtain r where r: "wait_for_cmd demo_state = Some r" by auto
  have "map_option rest (wait_for_cmd demo_state) = Some [CMD_GPIO_READ]"
    by (simp add: wait_for_cmd_def i demo_input_def)
  with r have "rest r = [CMD_GPIO_READ]" by simp
  then have c: "consumed demo_state r = [CMD_READ_ID, CR, CMD_STOP, LF]"
    by (simp add: consumed_def i demo_input_def)
  from t r c have "0 \<le> ret r" "frame_of r = [CMD_READ_ID, CMD_STOP]" "ret r = 2"
    by auto
  with r c lf show ?thesis by simp
qed

section \<open>I2C write\<close>

lemma frame_cell:
  "i < length p \<Longrightarrow> ((fill m 0 p)(length p := z)) i = p ! i"
  by (simp add: fill_def)

lemma frame_cell_zero:
  "length p \<le> i \<Longrightarrow> i < BUFFER_SIZE \<Longrightarrow>
   ((fill (memset_zero m BUFFER_SIZE) 0 p)(length p := 0)) i = 0"
  by (simp add: fill_def memset_zero_def)

lemma i2c_write_fields:
  "wire_ops (i2c_write e data s) = wire_ops s @
     [Transmission (drop_bit 1 (data 1)) (map data [3 ..< 3 + unat (data 2)])
        (cnt s = 4 + uint (data 2) \<and> data (nat (cnt s - 1)) = CMD_STOP)]"
  "rx_buf (i2c_write e data s) = rx_buf s"
  "i2c_state (i2c_write e data s) = end_result e"
  by (simp_all add: i2c_write_def Let_def del: upt_Suc)

text \<open>
  Claim C6. A line whose frame \<open>f\<close> starts with \<open>S\<close>, carries a write address (bit 0
  clear) and a length byte \<open>f ! 2\<close> makes one pass of \<open>loop\<close> end one bus transaction;
  the stop condition is asserted on it if and only if the frame is \<open>4 + f ! 2\<close> bytes
  long and its last byte is \<open>P\<close>. The buffer then holds the frame, with zeroes behind
  it, and the result of the transaction becomes \<open>i2c_state\<close>.
\<close>

theorem i2c_write_stop_condition:
  assumes inp: "uart_in s = pre @ LF # tl0" "LF \<notin> set pre"
    and f: "f = payload_bytes pre"
    and len: "3 \<le> length f" "length f \<le> BUFFER_SIZE"
    and cmd: "f ! 0 = CMD_START" "f ! 1 AND I2C_READ_BIT = 0"
  shows "\<exists>s'. loop e s = Some s' \<and>
           wire_ops s' = wire_ops s @
             [Transmission (drop_bit 1 (f ! 1)) (map (rx_buf s') [3 ..< 3 + unat (f ! 2)])
                (length f = 4 + unat (f ! 2) \<and> last f = CMD_STOP)] \<and>
           rx_buf s' = (fill (memset_zero (rx_buf s) BUFFER_SIZE) 0 f)(length f := 0) \<and>
           i2c_state s' = end_result e"
proof -
  from inp f len have w: "wait_for_cmd s =
     Some \<lparr>ret = int (length f),
           buf = (fill (memset_zero (rx_buf s) BUFFER_SIZE) 0 f)(length f := 0),
           rest = tl0, stored = [0 ..< Suc (length f)]\<rparr>"
    using wait_for_cmd_frame [of s pre tl0] by simp
  define b where "b = (fill (memset_zero (rx_buf s) BUFFER_SIZE) 0 f)(length f := 0)"
  from len have "f \<noteq> []" by auto
  then have lf: "last f = f ! (length f - 1)" by (rule last_conv_nth)
  from len have p0: "0 < length f" and p1: "1 < length f" and p2: "2 < length f"
    and pl: "length f - 1 < length f" by linarith+
  have b0: "b 0 = f ! 0" unfolding b_def by (rule frame_cell) (rule p0)
  have b1: "b 1 = f ! 1" unfolding b_def by (rule frame_cell) (rule p1)
  have b2: "b 2 = f ! 2" unfolding b_def by (rule frame_cell) (rule p2)
  have bl: "b (length f - 1) = last f"
    unfolding b_def lf by (rule frame_cell) (rule pl)
  have n: "nat (int (length f) - 1) = length f - 1" by simp
  have eq: "(int (length f) = 4 + uint (f ! 2)) = (length f = 4 + unat (f ! 2))"
    unfolding uint_nat by linarith
  have d: "dispatch e (s\<lparr>rx_buf := b, uart_in := tl0, cnt := int (length f)\<rparr>)
           = Some (i2c_write e b (s\<lparr>rx_buf := b, uart_in := tl0, cnt := int (length f)\<rparr>))"
    using cmd b0 b1 by (simp add: dispatch_def)
  have l: "loop e s = Some (i2c_write e b (s\<lparr>rx_buf := b, uart_in := tl0, cnt := int (length f)\<rparr>))"
    by (simp add: loop_def w b_def [symmetric] d)
  let ?s1 = "s\<lparr>rx_buf := b, uart_in := tl0, cnt := int (length f)\<rparr>"
  have c: "cnt ?s1 = int (length f)" and r: "rx_buf ?s1 = b" and ws: "wire_ops ?s1 = wire_ops s"
    by simp_all
  have "wire_ops (i2c_write e b ?s1) = wire_ops s @
     [Transmission (drop_bit 1 (f ! 1)) (map b [3 ..< 3 + unat (f ! 2)])
        (length f = 4 + unat (f ! 2) \<and> last f = CMD_STOP)]"
    unfolding i2c_write_fields c ws b1 b2 n bl eq ..
  moreover have "rx_buf (i2c_write e b ?s1) = b"
    by (simp add: i2c_write_fields)
  ultimately show ?thesis
    unfolding l b_def [symmetric] by (simp add: i2c_write_fields del: upt_Suc)
qed

theorem i2c_write_stop_condition_witness:
  "(\<exists>s'. loop idle_env (setup_sketch zero_mem stop_input) = Some s' \<and>
         wire_ops s' = wire_ops (setup_sketch zero_mem stop_input) @
           [Transmission 0x08 [0xAA, 0xBB] True]) \<and>
   (\<exists>s'. loop idle_env (setup_sketch zero_mem nostop_input) = Some s' \<and>
         wire_ops s' = wire_ops (setup_sketch zero_mem nostop_input) @
           [Transmission 0x08 [0xAA, 0xBB] False])"
proof -
  have a: "uart_in (setup_sketch zero_mem stop_input)
             = [CMD_START, 0x10, 0x02, 0xAA, 0xBB, CMD_STOP] @ LF # []"
    by (simp add: setup_sketch_def stop_input_def)
  have b: "uart_in (setup_sketch zero_mem nostop_input)
             = [CMD_START, 0x10, 0x02, 0xAA, 0xBB] @ LF # []"
    by (simp add: setup_sketch_def nostop_input_def)
  show ?thesis
    using i2c_write_stop_condition [OF a, of "[CMD_START, 0x10, 0x02, 0xAA, 0xBB, CMD_STOP]" idle_env]
      i2c_write_stop_condition [OF b, of "[CMD_START, 0x10, 0x02, 0xAA, 0xBB]" idle_env]
    by (auto simp: fill_def)
qed

section \<open>Registers\<close>

lemma baud_loop_no_match:
  "val \<notin> fst ` set tbl \<Longrightarrow> baud_loop val tbl s = s"
  by (induction tbl arbitrary: s) auto

lemma pair16_baud: "pair16 REG_BAUD_RATE_1 REG_BAUD_RATE_0 = 0x0100"
  and pair16_port: "pair16 REG_PORT_CONF2 REG_PORT_CONF1 = 0x0302"
  and pair16_clk: "pair16 REG_I2C_CLK_H REG_I2C_CLK_L = 0x0807"
  by (simp_all add: pair16_def)

text \<open>
  Claim C7. A register write that names the baud pair (\<open>buffer[1]\<close> the low register,
  \<open>buffer[3]\<close> the high one): with the code \<open>0x0030\<close> the bridge port is flushed and then
  reopened at 115200, and nothing else changes; with a code that is not in \<open>br_config\<close>
  the state, and with it the rate, is left as it was.
\<close>

theorem reg_write_baud:
  assumes "buffer 1 = REG_BAUD_RATE_0" "buffer 3 = REG_BAUD_RATE_1"
  shows "(pair16 (buffer 4) (buffer 2) = 0x0030 \<longrightarrow>
            reg_write buffer s
              = s\<lparr>bridge_out := bridge_out s @ [Flush, Begin 115200], baud := 115200\<rparr>) \<and>
         (pair16 (buffer 4) (buffer 2) \<notin> set br_config \<longrightarrow> reg_write buffer s = s)"
proof (intro conjI impI)
  assume v: "pair16 (buffer 4) (buffer 2) = 0x0030"
  have "baud_loop 0x0030 (zip br_config baud_rate) s
          = s\<lparr>bridge_out := bridge_out s @ [Flush, Begin 115200], baud := 115200\<rparr>"
    by (simp add: br_config_def baud_rate_def)
  then show "reg_write buffer s
          = s\<lparr>bridge_out := bridge_out s @ [Flush, Begin 115200], baud := 115200\<rparr>"
    using assms v by (simp add: reg_write_def Let_def pair16_baud pair16_port)
next
  assume v: "pair16 (buffer 4) (buffer 2) \<notin> set br_config"
  have "fst ` set (zip br_config baud_rate) = set br_config"
    by (simp add: br_config_def baud_rate_def)
  with v have "baud_loop (pair16 (buffer 4) (buffer 2)) (zip br_config baud_rate) s = s"
    by (intro baud_loop_no_match) simp
  then show "reg_write buffer s = s"
    using assms by (simp add: reg_write_def Let_def pair16_baud pair16_port)
qed

theorem reg_write_baud_witness:
  "baud_115200_buffer 1 = REG_BAUD_RATE_0 \<and> baud_115200_buffer 3 = REG_BAUD_RATE_1 \<and>
   pair16 (baud_115200_buffer 4) (baud_115200_buffer 2) = 0x0030 \<and>
   reg_write baud_115200_buffer idle_state
     = idle_state\<lparr>bridge_out := bridge_out idle_state @ [Flush, Begin 115200], baud := 115200\<rparr> \<and>
   baud_unlisted_buffer 1 = REG_BAUD_RATE_0 \<and> baud_unlisted_buffer 3 = REG_BAUD_RATE_1 \<and>
   pair16 (baud_unlisted_buffer 4) (baud_unlisted_buffer 2) \<notin> set br_config \<and>
   reg_write baud_unlisted_buffer idle_state = idle_state"
proof -
  have a: "baud_115200_buffer 1 = REG_BAUD_RATE_0" "baud_115200_buffer 3 = REG_BAUD_RATE_1"
    and av: "pair16 (baud_115200_buffer 4) (baud_115200_buffer 2) = 0x0030"
    by (simp_all add: baud_115200_buffer_def fill_def pair16_def)
  have b: "baud_unlisted_buffer 1 = REG_BAUD_RATE_0" "baud_unlisted_buffer 3 = REG_BAUD_RATE_1"
    and bv: "pair16 (baud_unlisted_buffer 4) (baud_unlisted_buffer 2) \<notin> set br_config"
    by (simp_all add: baud_unlisted_buffer_def fill_def pair16_def br_config_def)
  show ?thesis
    using reg_write_baud [OF a, of idle_state] reg_write_baud [OF b, of idle_state] a av b bv
    by simp
qed

lemma byte_le_5:
  fixes x :: byte
  assumes "x \<le> 5"
  shows "x = 0 \<or> x = 1 \<or> x = 2 \<or> x = 3 \<or> x = 4 \<or> x = 5"
proof -
  from assms have "unat x \<le> 5" by (simp add: word_le_nat_alt)
  then have "unat x = 0 \<or> unat x = 1 \<or> unat x = 2 \<or> unat x = 3 \<or> unat x = 4 \<or> unat x = 5"
    by arith
  then show ?thesis
    by (auto simp: word_unat_eq_iff)
qed

text \<open>
  Called with \<open>REG_I2C_STATE\<close> while \<open>i2c_state\<close> holds one of the six results of
  \<open>Wire.endTransmission\<close> (0 to 5), \<open>reg_read\<close> writes one byte for the four mapped
  results, \<open>0xF0\<close> for 0, \<open>0xF1\<close> for 2, \<open>0xF2\<close> for 3, \<open>0xF8\<close> for 5, and nothing
  for 1 and 4. Whether \<open>loop\<close> ever calls it so is settled further down.
\<close>

lemma reg_read_maps_status:
  assumes "i2c_state s \<le> 5"
  shows "reg_read REG_I2C_STATE s =
           s\<lparr>bridge_out := bridge_out s @
                (if i2c_state s = 0 then [Write I2C_OK]
                 else if i2c_state s = 2 then [Write I2C_NACK_ON_ADDR]
                 else if i2c_state s = 3 then [Write I2C_NACK_ON_DATA]
                 else if i2c_state s = 5 then [Write I2C_TIME_OUT]
                 else [])\<rparr>"
  using byte_le_5 [OF assms] by (auto simp: reg_read_def)

section \<open>GPIO\<close>

lemma upt_8: "[0 ..< 8] = [0, 1, 2, 3, 4, 5, 6, 7]"
  by code_simp

lemma below_8: "(i::nat) < 8 \<Longrightarrow> i = 0 \<or> i = 1 \<or> i = 2 \<or> i = 3 \<or> i = 4 \<or> i = 5 \<or> i = 6 \<or> i = 7"
  by arith

lemma gpio_read_io:
  "ioStates (gpio_read e s) =
     of_bool (pin_level e (gpio_pins ! 0)) OR push_bit 1 (of_bool (pin_level e (gpio_pins ! 1)))
     OR push_bit 2 (of_bool (pin_level e (gpio_pins ! 2)))
     OR push_bit 3 (of_bool (pin_level e (gpio_pins ! 3)))
     OR push_bit 4 (of_bool (pin_level e (gpio_pins ! 4)))
     OR push_bit 5 (of_bool (pin_level e (gpio_pins ! 5)))
     OR push_bit 6 (of_bool (pin_level e (gpio_pins ! 6)))
     OR push_bit 7 (of_bool (pin_level e (gpio_pins ! 7)))"
  by (simp add: gpio_read_def upt_8 Let_def)

lemma gpio_read_bit:
  assumes "i < 8"
  shows "bit (ioStates (gpio_read e s)) i = pin_level e (gpio_pins ! i)"
  using below_8 [OF assms]
  by (elim disjE; simp add: gpio_read_io bit_or_iff bit_push_bit_iff bit_of_bool_iff)

text \<open>
  Claim C4, as amended. \<open>gpio_write\<close> leaves the cached port state \<open>ioStates\<close> as it was,
  so a read of the io-state register right after it answers with the value cached
  before. \<open>gpio_read\<close> sets the cache to the mask sampled, bit \<open>i\<close> being the level of
  the \<open>i\<close>-th pin of \<open>gpio_pins\<close>; it writes the mask to the port, and a read of the
  io-state register after it writes the same mask again.
\<close>

theorem gpio_cache_written_by_read:
  "ioStates (gpio_write m s) = ioStates s \<and>
   bridge_out (reg_read REG_IO_STATE (gpio_write m s)) = bridge_out s @ [Write (ioStates s)] \<and>
   (\<forall>i<8. bit (ioStates (gpio_read e s)) i = pin_level e (gpio_pins ! i)) \<and>
   bridge_out (reg_read REG_IO_STATE (gpio_read e s))
     = bridge_out s @ [Write (ioStates (gpio_read e s)), Write (ioStates (gpio_read e s))]"
proof (intro conjI)
  show "ioStates (gpio_write m s) = ioStates s"
    by (simp add: gpio_write_def)
  show "bridge_out (reg_read REG_IO_STATE (gpio_write m s)) = bridge_out s @ [Write (ioStates s)]"
    by (simp add: gpio_write_def reg_read_def)
  show "\<forall>i<8. bit (ioStates (gpio_read e s)) i = pin_level e (gpio_pins ! i)"
    by (simp add: gpio_read_bit)
  show "bridge_out (reg_read REG_IO_STATE (gpio_read e s))
     = bridge_out s @ [Write (ioStates (gpio_read e s)), Write (ioStates (gpio_read e s))]"
    by (simp add: gpio_read_def reg_read_def Let_def)
qed

theorem gpio_cache_written_by_read_witness:
  "(2::nat) < 8 \<and> bit (ioStates (gpio_read pin5_env idle_state)) 2 \<and>
   (3::nat) < 8 \<and> \<not> bit (ioStates (gpio_read pin5_env idle_state)) 3 \<and>
   ioStates (gpio_write 0x05 idle_state) = ioStates idle_state"
  using gpio_cache_written_by_read [of "0x05" idle_state pin5_env]
  by (simp add: pin5_env_def gpio_pins_def)

text \<open>
  Claim C4 as stated fails: after start-up the cache is 0; \<open>gpio_write(0x05)\<close> leaves it
  0, and the io-state register reads back \<open>0x00\<close>, not the mask \<open>0x05\<close>.
\<close>

theorem gpio_write_cache_counterexample:
  "ioStates (gpio_write 0x05 idle_state) \<noteq> 0x05 \<and>
   bridge_out (reg_read REG_IO_STATE (gpio_write 0x05 idle_state))
     = bridge_out idle_state @ [Write 0x00]"
  by (simp add: gpio_write_def reg_read_def idle_state_def setup_sketch_def)

section \<open>I2C read\<close>

lemma drain_eq:
  "drain bs i rbuf ws = (i + length bs, fill rbuf i bs, ws @ [i ..< i + length bs])"
proof (induction bs arbitrary: i rbuf ws)
  case Nil
  then show ?case by (simp add: fill_Nil)
next
  case (Cons b bs)
  have "drain (b # bs) i rbuf ws = drain bs (Suc i) (rbuf(i := b)) (ws @ [i])" by simp
  also have "\<dots> = (Suc i + length bs, fill (rbuf(i := b)) (Suc i) bs,
                     (ws @ [i]) @ [Suc i ..< Suc i + length bs])"
    by (rule Cons.IH)
  also have "\<dots> = (i + length (b # bs), fill rbuf i (b # bs), ws @ [i ..< i + length (b # bs)])"
    by (simp add: fill_Cons upt_stored del: upt_Suc)
  finally show ?case .
qed

text \<open>
  Claim C9. When the bus delivers at least one byte, \<open>i2c_read\<close> returns, and the drain
  loop has stored to \<open>rbuf\<close> at the indices 0, 1, ... up to the number of bytes
  delivered (the reply, cut to the count requested), with no check against the ten
  cells of \<open>rbuf\<close>: every index stored to is below 10 if and only if at most ten bytes
  were delivered.
\<close>

theorem i2c_read_rbuf_indices:
  assumes "take (unat n) (bus_reply e) \<noteq> []"
  shows "\<exists>s'. i2c_read e addr n s = Some ([0 ..< min (unat n) (length (bus_reply e))], s') \<and>
           ((\<forall>i \<in> set [0 ..< min (unat n) (length (bus_reply e))]. i < RBUF_SIZE)
              \<longleftrightarrow> min (unat n) (length (bus_reply e)) \<le> RBUF_SIZE)"
proof -
  have "(\<forall>i \<in> set [0 ..< k]. i < RBUF_SIZE) \<longleftrightarrow> k \<le> RBUF_SIZE" for k :: nat
    by auto
  then show ?thesis
    using assms by (simp add: i2c_read_def Let_def drain_eq min.commute del: upt_Suc)
qed

theorem i2c_read_rbuf_indices_witness:
  "take (unat (0x0B :: byte)) (bus_reply reply11_env) \<noteq> [] \<and>
   (\<exists>s'. i2c_read reply11_env 0x11 0x0B idle_state
            = Some ([0, 1, 2, 3, 4, 5, 6, 7, 8, 9, 10], s')) \<and>
   \<not> (\<forall>i \<in> set [0, 1, 2, 3, 4, 5, 6, 7, 8, 9, 10 :: nat]. i < RBUF_SIZE)"
proof -
  have a: "take (unat (0x0B :: byte)) (bus_reply reply11_env) \<noteq> []"
    by (simp add: reply11_env_def)
  have k: "min (unat (0x0B :: byte)) (length (bus_reply reply11_env)) = 11"
    by (simp add: reply11_env_def)
  have u: "[0 ..< 11] = [0, 1, 2, 3, 4, 5, 6, 7, 8, 9, 10 :: nat]"
    by code_simp
  show ?thesis
    using i2c_read_rbuf_indices [OF a, of "0x11" idle_state] a
    unfolding k u by simp
qed

section \<open>Identity\<close>

text \<open>
  Claim C3, what the code does. Whatever the state, \<open>read_id\<close> writes the same fifteen
  bytes \<open>U-Bridge v1.0.0\<close>: \<open>bridge.write(const char *)\<close> stops before the first NUL,
  so no NUL is written and the count is 15, not 16. Nothing but the port's output
  changes.
\<close>

theorem read_id_bytes:
  "bridge_out (read_id s) = bridge_out s @
     map Write [0x55, 0x2D, 0x42, 0x72, 0x69, 0x64, 0x67, 0x65, 0x20,
                0x76, 0x31, 0x2E, 0x30, 0x2E, 0x30] \<and>
   length (c_str device_id) = 15 \<and> 0 \<notin> set (c_str device_id) \<and>
   read_id s = s\<lparr>bridge_out := bridge_out (read_id s)\<rparr>"
  by (simp add: read_id_def c_str_def device_id_def)

section \<open>The dispatcher\<close>

lemma loop_frame:
  assumes "uart_in s = pre @ LF # tl0" "LF \<notin> set pre"
    "length (payload_bytes pre) \<le> BUFFER_SIZE"
  shows "loop e s = dispatch e
           (s\<lparr>rx_buf := (fill (memset_zero (rx_buf s) BUFFER_SIZE) 0 (payload_bytes pre))
                            (length (payload_bytes pre) := 0),
               uart_in := tl0, cnt := int (length (payload_bytes pre))\<rparr>)"
  by (simp add: loop_def wait_for_cmd_frame [OF assms])

lemma loop_overflow:
  assumes "uart_in s = pre @ c # tl0" "LF \<notin> set pre" "c \<noteq> CR" "c \<noteq> LF"
    "length (payload_bytes pre) = BUFFER_SIZE"
  shows "loop e s = dispatch e
           (s\<lparr>rx_buf := fill (memset_zero (rx_buf s) BUFFER_SIZE) 0 (payload_bytes pre @ [c]),
               uart_in := tl0, cnt := - 1\<rparr>)"
  by (simp add: loop_def wait_for_cmd_overflow [OF assms])

lemma dispatch_read_id: "rx_buf s 0 = CMD_READ_ID \<Longrightarrow> dispatch e s = Some (read_id s)"
  by (simp add: dispatch_def Let_def)

lemma dispatch_i2c_write:
  "rx_buf s 0 = CMD_START \<Longrightarrow> rx_buf s 1 AND I2C_READ_BIT = 0 \<Longrightarrow>
   dispatch e s = Some (i2c_write e (rx_buf s) s)"
  by (simp add: dispatch_def Let_def)

lemma dispatch_unsupported:
  "rx_buf s 0 \<notin> {CMD_START, CMD_REG_READ, CMD_REG_WRITE, CMD_GPIO_READ, CMD_GPIO_WRITE,
                    CMD_POWER_DOWN, CMD_READ_ID} \<Longrightarrow>
   dispatch e s = Some s"
  by (simp add: dispatch_def Let_def)

lemma run_single: "run [e] s = loop e s"
  by (cases "loop e s") simp_all

text \<open>
  Claim C1, what the code does. A line of 65 bytes \<open>V\<close> with no line feed:
  \<open>wait_for_cmd\<close> returns \<open>-1\<close>, and \<open>loop\<close>, which does not look at the value, switches
  on \<open>rx_buf[0]\<close> all the same: \<open>read_id\<close> runs on the overflowed buffer and the identity
  follows the start-up greeting \<open>OK\<close> on the port.
\<close>

theorem overflowed_buffer_is_dispatched:
  "map_option ret (wait_for_cmd (setup_sketch zero_mem overflow_input)) = Some (- 1) \<and>
   map_option (\<lambda>s. (cnt s, uart_in s, written (bridge_out s)))
     (loop idle_env (setup_sketch zero_mem overflow_input))
   = Some (- 1, [],
           [0x4F, 0x4B, 0x55, 0x2D, 0x42, 0x72, 0x69, 0x64, 0x67, 0x65, 0x20,
            0x76, 0x31, 0x2E, 0x30, 0x2E, 0x30])"
proof -
  let ?s = "setup_sketch zero_mem overflow_input"
  have i: "uart_in ?s = replicate 64 CMD_READ_ID @ CMD_READ_ID # []"
    by (simp add: setup_sketch_def overflow_input_def)
  have n: "LF \<notin> set (replicate 64 CMD_READ_ID)" by simp
  have c: "CMD_READ_ID \<noteq> CR" "CMD_READ_ID \<noteq> LF" by simp_all
  have l: "length (payload_bytes (replicate 64 CMD_READ_ID)) = BUFFER_SIZE" by simp
  note w = wait_for_cmd_overflow [OF i n c l]
  note lo = loop_overflow [OF i n c l, of idle_env]
  have b0: "fill m 0 (replicate 64 CMD_READ_ID @ [CMD_READ_ID]) 0 = CMD_READ_ID" for m
    by (simp add: fill_def nth_append)
  let ?s1 = "?s\<lparr>rx_buf := fill (memset_zero (rx_buf ?s) BUFFER_SIZE) 0
                 (payload_bytes (replicate 64 CMD_READ_ID) @ [CMD_READ_ID]),
               uart_in := [], cnt := - 1\<rparr>"
  have d: "dispatch idle_env ?s1 = Some (read_id ?s1)"
    by (rule dispatch_read_id) (simp add: b0)
  show ?thesis
    unfolding lo w d
    by (simp add: read_id_def c_str_def device_id_def written_def setup_sketch_def)
qed

section \<open>Reading the I2C status register\<close>

text \<open>
  Whatever was pending and whatever the buffer held, the cell \<open>rx_buf[1]\<close> never holds a
  line feed when \<open>wait_for_cmd\<close> returns: a line feed ends the frame and is replaced by
  the terminator.
\<close>

lemma second_cell_not_LF:
  assumes "wait_for_cmd s = Some r"
  shows "buf r 1 \<noteq> LF"
proof (cases "uart_in s" rule: input_cases)
  case (frame pre tl0)
  define p where "p = payload_bytes pre"
  from frame have nl: "LF \<notin> set p" by (simp add: p_def)
  from assms have b: "buf r = (fill (memset_zero (rx_buf s) BUFFER_SIZE) 0 p)(length p := 0)"
    unfolding wait_for_cmd_frame [OF frame] p_def by auto
  show ?thesis
  proof (cases "1 < length p")
    case True
    then have "buf r 1 = p ! 1" by (simp add: b fill_def)
    moreover from True have "p ! 1 \<in> set p" by (rule nth_mem)
    ultimately show ?thesis using nl by auto
  next
    case False
    then have "buf r 1 = 0" by (auto simp: b fill_def memset_zero_def)
    then show ?thesis by simp
  qed
next
  case (overflow pre c tl0)
  define p where "p = payload_bytes pre"
  from overflow have nl: "LF \<notin> set p" and l: "length p = BUFFER_SIZE" by (simp_all add: p_def)
  from assms have b: "buf r = fill (memset_zero (rx_buf s) BUFFER_SIZE) 0 (p @ [c])"
    unfolding wait_for_cmd_overflow [OF overflow] p_def by auto
  from l have "buf r 1 = p ! 1" by (simp add: b fill_def nth_append)
  moreover from l have "p ! 1 \<in> set p" by (intro nth_mem) simp
  ultimately show ?thesis using nl by auto
next
  case blocks
  with assms show ?thesis by (simp add: wait_for_cmd_blocks)
qed

lemma dispatch_reg_read:
  "rx_buf s 0 = CMD_REG_READ \<Longrightarrow> dispatch e s = Some (reg_read (rx_buf s 1) s)"
  by (simp add: dispatch_def Let_def)

lemma reg_read_other:
  "reg \<noteq> REG_I2C_STATE \<Longrightarrow>
   reg_read reg s = s\<lparr>bridge_out := bridge_out s @
                         (if reg = REG_IO_STATE then [Write (ioStates s)] else [])\<rparr>"
  by (simp add: reg_read_def)

lemma i2c_write_keeps:
  "uart_in (i2c_write e data s) = uart_in s"
  "bridge_out (i2c_write e data s) = bridge_out s"
  "ioStates (i2c_write e data s) = ioStates s"
  by (simp_all add: i2c_write_def Let_def)

text \<open>
  Claim C5, what the code does. The register number \<open>REG_I2C_STATE\<close> is 10, the line
  feed that ends a frame, and \<open>loop\<close> hands \<open>reg_read\<close> the cell \<open>rx_buf[1]\<close>. So for
  every state and every input, a pass of \<open>loop\<close> on a buffer that starts with \<open>R\<close> never
  names the status register: it writes the cached port state when the register is
  \<open>REG_IO_STATE\<close> and nothing otherwise, and no status byte for any result of the last
  I2C transaction.
\<close>

theorem register_read_never_names_i2c_status:
  assumes "wait_for_cmd s = Some r" and "buf r 0 = CMD_REG_READ"
  shows "buf r 1 \<noteq> REG_I2C_STATE \<and>
         (\<exists>s'. loop e s = Some s' \<and>
               bridge_out s' = bridge_out s @
                 (if buf r 1 = REG_IO_STATE then [Write (ioStates s)] else []) \<and>
               i2c_state s' = i2c_state s)"
proof -
  let ?s1 = "s\<lparr>rx_buf := buf r, uart_in := rest r, cnt := ret r\<rparr>"
  have n: "buf r 1 \<noteq> REG_I2C_STATE" by (rule second_cell_not_LF [OF assms(1)])
  have "loop e s = dispatch e ?s1" by (simp add: loop_def assms(1))
  also have "\<dots> = Some (reg_read (rx_buf ?s1 1) ?s1)"
    by (rule dispatch_reg_read) (simp add: assms(2))
  also have "rx_buf ?s1 1 = buf r 1" by simp
  finally have l: "loop e s = Some (reg_read (buf r 1) ?s1)" .
  show ?thesis
    unfolding l reg_read_other [OF n] using n by simp
qed

text \<open>
  The example: an I2C write answered with a NACK on the address, then the register read
  \<open>R 0x0A P\<close>. The reader cuts it into the frames \<open>R\<close> and \<open>P\<close>; register 0 is read,
  then an unsupported command is dropped, and the port has carried nothing but the
  greeting \<open>OK\<close>.
\<close>

theorem register_read_never_names_i2c_status_witness:
  "\<exists>sN r s'.
     run [nack_env] (setup_sketch zero_mem status_query_input) = Some sN \<and>
     i2c_state sN = 2 \<and> last (wire_ops sN) = Transmission 0x08 [0xAA] True \<and>
     uart_in sN = [CMD_REG_READ, REG_I2C_STATE, CMD_STOP, LF] \<and>
     wait_for_cmd sN = Some r \<and> buf r 0 = CMD_REG_READ \<and> buf r 1 \<noteq> REG_I2C_STATE \<and>
     loop idle_env sN = Some s' \<and> i2c_state s' = 2 \<and>
     written (bridge_out s') = [0x4F, 0x4B] \<and>
     map_option (\<lambda>s. (i2c_state s, uart_in s, written (bridge_out s)))
       (run [nack_env, idle_env, idle_env] (setup_sketch zero_mem status_query_input))
     = Some (2, [], [0x4F, 0x4B])"
proof -
  let ?s0 = "setup_sketch zero_mem status_query_input"
  \<comment> \<open>first pass: the I2C write, answered with a NACK on the address\<close>
  define b1 where "b1 = (fill (memset_zero (rx_buf ?s0) BUFFER_SIZE) 0
                           [CMD_START, 0x10, 0x01, 0xAA, CMD_STOP])
                        (length [CMD_START, 0x10, 0x01, 0xAA, CMD_STOP] := 0)"
  define s1 where "s1 = ?s0\<lparr>rx_buf := b1, uart_in := [CMD_REG_READ, REG_I2C_STATE, CMD_STOP, LF],
                           cnt := 5\<rparr>"
  define sN where "sN = i2c_write nack_env b1 s1"
  have i0: "uart_in ?s0 = [CMD_START, 0x10, 0x01, 0xAA, CMD_STOP] @ LF
                            # [CMD_REG_READ, REG_I2C_STATE, CMD_STOP, LF]"
    by (simp add: setup_sketch_def status_query_input_def)
  have c1: "b1 0 = CMD_START" "b1 1 = 0x10" "b1 2 = 0x01" "b1 3 = 0xAA" "b1 4 = CMD_STOP"
    by (simp_all add: b1_def fill_def)
  have "loop nack_env ?s0 = dispatch nack_env s1"
    using loop_frame [OF i0, of nack_env] by (simp add: s1_def b1_def)
  also have "\<dots> = Some (i2c_write nack_env (rx_buf s1) s1)"
    by (rule dispatch_i2c_write) (use c1 in \<open>simp_all add: s1_def\<close>)
  also have "rx_buf s1 = b1" by (simp add: s1_def)
  finally have pass1: "loop nack_env ?s0 = Some sN" by (simp add: sN_def)
  have r1: "run [nack_env] ?s0 = Some sN" unfolding run_single by (rule pass1)
  have stN: "i2c_state sN = 2"
    by (simp add: sN_def i2c_write_fields nack_env_def)
  have uN: "uart_in sN = [CMD_REG_READ, REG_I2C_STATE, CMD_STOP, LF]"
    by (simp add: sN_def i2c_write_keeps s1_def)
  have oN: "bridge_out sN = bridge_out ?s0"
    by (simp add: sN_def i2c_write_keeps s1_def)
  have "cnt s1 = 4 + uint (b1 2)" "nat (cnt s1 - 1) = 4" "[3 ..< 3 + unat (b1 2)] = [3]"
    by (simp_all add: s1_def c1)
  then have wN: "last (wire_ops sN) = Transmission 0x08 [0xAA] True"
    unfolding sN_def i2c_write_fields using c1 by simp
  \<comment> \<open>second pass: the line feed that names the register ends the frame \<open>R\<close>\<close>
  define r where "r = \<lparr>ret = int (length [CMD_REG_READ]),
                         buf = (fill (memset_zero (rx_buf sN) BUFFER_SIZE) 0 [CMD_REG_READ])
                                 (length [CMD_REG_READ] := 0),
                         rest = [CMD_STOP, LF], stored = [0 ..< Suc (length [CMD_REG_READ])]\<rparr>"
  have iN: "uart_in sN = [CMD_REG_READ] @ LF # [CMD_STOP, LF]"
    by (simp add: uN)
  have w: "wait_for_cmd sN = Some r"
    using wait_for_cmd_frame [OF iN] by (simp add: r_def)
  have r0: "buf r 0 = CMD_REG_READ" and r1': "buf r 1 = 0"
    by (simp_all add: r_def fill_def)
  from register_read_never_names_i2c_status [OF w r0, of idle_env]
  obtain s' where n: "buf r 1 \<noteq> REG_I2C_STATE" and l2: "loop idle_env sN = Some s'"
    and o2: "bridge_out s' = bridge_out sN" and st2: "i2c_state s' = 2"
    using r1' stN by auto
  have wr: "written (bridge_out s') = [0x4F, 0x4B]"
    by (simp add: o2 oN setup_sketch_def written_def)
  \<comment> \<open>third pass: the rest of the line is the unsupported frame \<open>P\<close>\<close>
  have "loop idle_env sN = dispatch idle_env (sN\<lparr>rx_buf := buf r, uart_in := rest r, cnt := ret r\<rparr>)"
    by (simp add: loop_def w)
  also have "\<dots> = Some (reg_read (buf r 1) (sN\<lparr>rx_buf := buf r, uart_in := rest r, cnt := ret r\<rparr>))"
    using dispatch_reg_read [of "sN\<lparr>rx_buf := buf r, uart_in := rest r, cnt := ret r\<rparr>" idle_env] r0
    by simp
  finally have s': "s' = reg_read 0 (sN\<lparr>rx_buf := buf r, uart_in := rest r, cnt := ret r\<rparr>)"
    using l2 r1' by simp
  have u2: "uart_in s' = [CMD_STOP] @ LF # []"
    by (simp add: s' reg_read_def r_def)
  define s3 where "s3 = s'\<lparr>rx_buf := (fill (memset_zero (rx_buf s') BUFFER_SIZE) 0 [CMD_STOP])
                                       (length [CMD_STOP] := 0),
                           uart_in := [], cnt := int (length [CMD_STOP])\<rparr>"
  have "loop idle_env s' = dispatch idle_env s3"
    using loop_frame [OF u2, of idle_env] by (simp add: s3_def)
  also have "\<dots> = Some s3"
    by (rule dispatch_unsupported) (simp add: s3_def fill_def)
  finally have pass3: "loop idle_env s' = Some s3" .
  have "run [nack_env, idle_env, idle_env] ?s0 = run [idle_env] s'"
    by (simp add: pass1 l2)
  then have r3: "run [nack_env, idle_env, idle_env] ?s0 = Some s3"
    unfolding run_single pass3 .
  have fin: "map_option (\<lambda>s. (i2c_state s, uart_in s, written (bridge_out s)))
       (run [nack_env, idle_env, idle_env] ?s0) = Some (2, [], [0x4F, 0x4B])"
    unfolding r3 by (simp add: s3_def st2 wr)
  from r1 stN wN uN w r0 n l2 st2 wr fin show ?thesis by blast
qed

section \<open>The bounds of \<open>rx_buf\<close>\<close>

text \<open>
  Claim C2, what the code does. The check \<open>cnt > BUFFER_SIZE\<close> comes after the store
  and lets the count reach 64. With the cell behind the array holding \<open>0x55\<close>: a line of
  64 bytes is delivered with length 64 and its terminator is stored at index 64, where
  the cell now holds 0; a line of 65 bytes has its last byte stored at index 64 before
  \<open>-1\<close> is returned.
\<close>

theorem store_behind_rx_buf:
  "rx_buf (setup_sketch mem_55 full_line) 64 = 0x55 \<and>
   map_option (\<lambda>r. (ret r, last (stored r), buf r 64))
     (wait_for_cmd (setup_sketch mem_55 full_line)) = Some (64, 64, 0x00) \<and>
   map_option (\<lambda>r. (ret r, last (stored r), buf r 64))
     (wait_for_cmd (setup_sketch mem_55 long_line)) = Some (- 1, 64, 0x41)"
proof -
  have a: "uart_in (setup_sketch mem_55 full_line) = replicate 64 0x41 @ LF # []"
    by (simp add: setup_sketch_def full_line_def)
  have b: "uart_in (setup_sketch mem_55 long_line) = replicate 64 0x41 @ 0x41 # []"
    by (simp add: setup_sketch_def long_line_def)
  have n: "LF \<notin> set (replicate 64 (0x41 :: byte))" by simp
  have l: "length (payload_bytes (replicate 64 (0x41 :: byte))) = BUFFER_SIZE"
    and l': "length (payload_bytes (replicate 64 (0x41 :: byte))) \<le> BUFFER_SIZE" by simp_all
  have c: "(0x41 :: byte) \<noteq> CR" "(0x41 :: byte) \<noteq> LF" by simp_all
  have "rx_buf (setup_sketch mem_55 full_line) 64 = 0x55"
    by (simp add: setup_sketch_def memset_zero_def mem_55_def)
  moreover have "map_option (\<lambda>r. (ret r, last (stored r), buf r 64))
     (wait_for_cmd (setup_sketch mem_55 full_line)) = Some (64, 64, 0x00)"
    unfolding wait_for_cmd_frame [OF a n l'] by simp
  moreover have "map_option (\<lambda>r. (ret r, last (stored r), buf r 64))
     (wait_for_cmd (setup_sketch mem_55 long_line)) = Some (- 1, 64, 0x41)"
    unfolding wait_for_cmd_overflow [OF b n c l]
    by (simp add: fill_def nth_append)
  ultimately show ?thesis by blast
qed

section \<open>Frames and earlier frames\<close>

text \<open>
  Inside the array a frame is read on a clean slate: what \<open>wait_for_cmd\<close> returns, what
  it leaves pending, where it stores and what the 64 cells of \<open>rx_buf\<close> hold afterwards
  depend on the pending input only, not on what the buffer held before.
\<close>

lemma array_cells_forget:
  "map ((fill (memset_zero m BUFFER_SIZE) 0 p)(k := z)) [0 ..< BUFFER_SIZE]
     = map ((fill (memset_zero m' BUFFER_SIZE) 0 p)(k := z)) [0 ..< BUFFER_SIZE]"
  and array_cells_forget':
  "map (fill (memset_zero m BUFFER_SIZE) 0 p) [0 ..< BUFFER_SIZE]
     = map (fill (memset_zero m' BUFFER_SIZE) 0 p) [0 ..< BUFFER_SIZE]"
  by (simp_all add: fill_def memset_zero_def del: upt_rec_numeral)

lemma wait_for_cmd_forgets:
  assumes "uart_in s = uart_in t"
  shows "map_option (\<lambda>r. (ret r, rest r, stored r, map (buf r) [0 ..< BUFFER_SIZE])) (wait_for_cmd s)
       = map_option (\<lambda>r. (ret r, rest r, stored r, map (buf r) [0 ..< BUFFER_SIZE])) (wait_for_cmd t)"
proof (cases "uart_in s" rule: input_cases)
  case (frame pre tl0)
  from frame assms have t: "uart_in t = pre @ LF # tl0" by simp
  show ?thesis
    unfolding wait_for_cmd_frame [OF frame] wait_for_cmd_frame [OF t frame(2,3)]
    using array_cells_forget [of "rx_buf s" pre' "length pre'" 0 "rx_buf t" for pre']
    by (simp del: upt_rec_numeral upt_Suc)
next
  case (overflow pre c tl0)
  from overflow assms have t: "uart_in t = pre @ c # tl0" by simp
  show ?thesis
    unfolding wait_for_cmd_overflow [OF overflow] wait_for_cmd_overflow [OF t overflow(2-5)]
    using array_cells_forget' [of "rx_buf s" pre' "rx_buf t" for pre']
    by (simp del: upt_rec_numeral upt_Suc)
next
  case blocks
  with assms show ?thesis by (simp add: wait_for_cmd_blocks)
qed

text \<open>
  Claim C10, what the code does. \<open>memset\<close> clears the 64 cells of the array, and
  \<open>i2c_write\<close> hands \<open>Wire.write\<close> as many cells as the length byte says, up to 255 from
  \<open>data[3]\<close> on. The frame \<open>S 0x10 0x3E\<close> makes it read the cells 3 to 64. After an
  overflowed line of 65 bytes \<open>A\<close> the state differs from the state after start-up only
  in \<open>rx_buf\<close> and \<open>_cnt\<close>, yet the same frame then sends 61 zeroes and the last byte of
  the earlier line, where after start-up it sends 62 zeroes.
\<close>

theorem frame_effect_depends_on_history:
  "map_option (\<lambda>s. (uart_in s, i2c_state s, ioStates s, baud s, bridge_out s, wire_ops s, gpio_ops s))
     (run [idle_env] (setup_sketch zero_mem (long_line @ frame_len62)))
   = (let s = setup_sketch zero_mem frame_len62
      in Some (uart_in s, i2c_state s, ioStates s, baud s, bridge_out s, wire_ops s, gpio_ops s)) \<and>
   map_option (\<lambda>s. last (wire_ops s))
     (run [idle_env, idle_env] (setup_sketch zero_mem (long_line @ frame_len62)))
   = Some (Transmission 0x08 (replicate 61 0x00 @ [0x41]) False) \<and>
   map_option (\<lambda>s. last (wire_ops s))
     (run [idle_env] (setup_sketch zero_mem frame_len62))
   = Some (Transmission 0x08 (replicate 62 0x00) False)"
proof -
  let ?A = "setup_sketch zero_mem (long_line @ frame_len62)"
  let ?B = "setup_sketch zero_mem frame_len62"
  define old where "old = fill (memset_zero (rx_buf ?A) BUFFER_SIZE) 0
                            (payload_bytes (replicate 64 0x41) @ [0x41])"
  define A1 where "A1 = ?A\<lparr>rx_buf := old, uart_in := frame_len62, cnt := - 1\<rparr>"
  have old0: "old 0 = 0x41" and old64: "old 64 = 0x41"
    by (simp_all add: old_def fill_def nth_append)
  \<comment> \<open>first pass of history A: the 65-byte line overflows and is dispatched as unsupported\<close>
  have iA: "uart_in ?A = replicate 64 0x41 @ 0x41 # frame_len62"
    by (simp add: setup_sketch_def long_line_def)
  have n: "LF \<notin> set (replicate 64 (0x41 :: byte))" by simp
  have c: "(0x41 :: byte) \<noteq> CR" "(0x41 :: byte) \<noteq> LF" by simp_all
  have l: "length (payload_bytes (replicate 64 (0x41 :: byte))) = BUFFER_SIZE" by simp
  have "loop idle_env ?A = dispatch idle_env A1"
    unfolding A1_def old_def by (rule loop_overflow [OF iA n c l])
  also have "\<dots> = Some A1"
    by (rule dispatch_unsupported) (simp add: A1_def old0)
  finally have pass1: "loop idle_env ?A = Some A1" .
  \<comment> \<open>the frame \<open>S 0x10 0x3E\<close>, read into a buffer whose first 64 cells were zeroed\<close>
  have fr: "uart_in s = frame_len62 \<Longrightarrow>
            loop idle_env s = Some (i2c_write idle_env
              ((fill (memset_zero (rx_buf s) BUFFER_SIZE) 0 [CMD_START, 0x10, 0x3E])(3 := 0))
              (s\<lparr>rx_buf := (fill (memset_zero (rx_buf s) BUFFER_SIZE) 0 [CMD_START, 0x10, 0x3E])(3 := 0),
                 uart_in := [], cnt := 3\<rparr>))" for s
  proof -
    assume "uart_in s = frame_len62"
    then have i: "uart_in s = [CMD_START, 0x10, 0x3E] @ LF # []"
      by (simp add: frame_len62_def)
    have "loop idle_env s = dispatch idle_env
              (s\<lparr>rx_buf := (fill (memset_zero (rx_buf s) BUFFER_SIZE) 0 [CMD_START, 0x10, 0x3E])(3 := 0),
                 uart_in := [], cnt := 3\<rparr>)"
      using loop_frame [OF i, of idle_env] by (simp add: numeral_3_eq_3)
    also have "\<dots> = Some (i2c_write idle_env
              ((fill (memset_zero (rx_buf s) BUFFER_SIZE) 0 [CMD_START, 0x10, 0x3E])(3 := 0))
              (s\<lparr>rx_buf := (fill (memset_zero (rx_buf s) BUFFER_SIZE) 0 [CMD_START, 0x10, 0x3E])(3 := 0),
                 uart_in := [], cnt := 3\<rparr>))"
      using dispatch_i2c_write [of "s\<lparr>rx_buf := (fill (memset_zero (rx_buf s) BUFFER_SIZE) 0 [CMD_START, 0x10, 0x3E])(3 := 0),
                 uart_in := [], cnt := 3\<rparr>" idle_env]
      by (simp add: fill_def)
    finally show ?thesis .
  qed
  have pay: "map ((fill (memset_zero m BUFFER_SIZE) 0 [CMD_START, 0x10, 0x3E])(3 := 0)) [3 ..< 3 + unat (0x3E :: byte)]
               = replicate 61 0x00 @ [m 64]" for m
  proof (rule nth_equalityI)
    show "length (map ((fill (memset_zero m BUFFER_SIZE) 0 [CMD_START, 0x10, 0x3E])(3 := 0))
                    [3 ..< 3 + unat (0x3E :: byte)])
            = length (replicate 61 (0x00 :: byte) @ [m 64])"
      by simp
  next
    fix i
    assume "i < length (map ((fill (memset_zero m BUFFER_SIZE) 0 [CMD_START, 0x10, 0x3E])(3 := 0))
                          [3 ..< 3 + unat (0x3E :: byte)])"
    then have i: "i < 62" by simp
    show "map ((fill (memset_zero m BUFFER_SIZE) 0 [CMD_START, 0x10, 0x3E])(3 := 0))
              [3 ..< 3 + unat (0x3E :: byte)] ! i
            = (replicate 61 (0x00 :: byte) @ [m 64]) ! i"
    proof (cases "i < 61")
      case True
      then show ?thesis
        using i by (simp add: fill_def memset_zero_def nth_append del: upt_rec_numeral)
    next
      case False
      with i have "i = 61" by arith
      then show ?thesis
        by (simp add: fill_def memset_zero_def nth_append del: upt_rec_numeral)
    qed
  qed
  have last_op: "map_option (\<lambda>s. last (wire_ops s)) (loop idle_env s)
        = Some (Transmission 0x08 (replicate 61 0x00 @ [rx_buf s 64]) False)"
    if u: "uart_in s = frame_len62" for s
  proof -
    define b where "b = (fill (memset_zero (rx_buf s) BUFFER_SIZE) 0 [CMD_START, 0x10, 0x3E])(3 := 0)"
    have b1: "b 1 = 0x10" and b2: "b 2 = 0x3E"
      by (simp_all add: b_def fill_def)
    have p: "map b [3 ..< 3 + unat (0x3E :: byte)] = replicate 61 0x00 @ [rx_buf s 64]"
      unfolding b_def by (rule pay)
    have l: "loop idle_env s
               = Some (i2c_write idle_env b (s\<lparr>rx_buf := b, uart_in := [], cnt := 3\<rparr>))"
      unfolding b_def by (rule fr [OF u])
    have "wire_ops (i2c_write idle_env b (s\<lparr>rx_buf := b, uart_in := [], cnt := 3\<rparr>))
            = wire_ops s @ [Transmission 0x08 (replicate 61 0x00 @ [rx_buf s 64]) False]"
      unfolding i2c_write_fields b1 b2 p by simp
    then show ?thesis unfolding l by simp
  qed
  have uA: "uart_in A1 = frame_len62" by (simp add: A1_def)
  have uB: "uart_in ?B = frame_len62" by (simp add: setup_sketch_def)
  have rA: "rx_buf A1 64 = 0x41" by (simp add: A1_def old64)
  have rB: "rx_buf ?B 64 = 0x00" by (simp add: setup_sketch_def memset_zero_def zero_mem_def)
  have one: "replicate 61 (0x00 :: byte) @ [0x00] = replicate 62 0x00"
    using replicate_add [of 61 1 "0 :: byte"] by simp
  have r1: "run [idle_env] ?A = Some A1"
    unfolding run_single by (rule pass1)
  have "run [idle_env, idle_env] ?A = run [idle_env] A1"
    by (simp add: pass1)
  then have r2: "run [idle_env, idle_env] ?A = loop idle_env A1"
    unfolding run_single .
  have r3: "run [idle_env] ?B = loop idle_env ?B"
    by (rule run_single)
  have "map_option (\<lambda>s. (uart_in s, i2c_state s, ioStates s, baud s, bridge_out s, wire_ops s, gpio_ops s))
     (run [idle_env] ?A)
   = (let s = ?B
      in Some (uart_in s, i2c_state s, ioStates s, baud s, bridge_out s, wire_ops s, gpio_ops s))"
    unfolding r1 by (simp add: A1_def setup_sketch_def)
  moreover have "map_option (\<lambda>s. last (wire_ops s)) (run [idle_env, idle_env] ?A)
   = Some (Transmission 0x08 (replicate 61 0x00 @ [0x41]) False)"
    unfolding r2 last_op [OF uA] rA ..
  moreover have "map_option (\<lambda>s. last (wire_ops s)) (run [idle_env] ?B)
   = Some (Transmission 0x08 (replicate 62 0x00) False)"
    unfolding r3 last_op [OF uB] rB one ..
  ultimately show ?thesis by blast
qed

end
